theory Spec2Isabelle
  imports Complex_Main "HOL-Library.Sublist"
begin

section \<open>The relayer agent of \<^verbatim>\<open>src/relayer/relayer.js\<close>\<close>

text \<open>
  The development embeds class \<^verbatim>\<open>RelayerAgent\<close>: the fields of the agent become a
  record that every method takes and returns, the provider, the clock and the console
  become a second record of scripted answers and emitted events, and a JavaScript
  \<^verbatim>\<open>throw\<close> becomes the left injection of a sum.
\<close>

subsection \<open>Configuration\<close>

text \<open>
  The fields of \<^verbatim>\<open>CONFIG\<close> that the agent's methods read. The maximum proof age
  (3600), the gas estimate (250000) and the large-trade threshold are literals in the
  methods and stay literals here.
\<close>

record config =
  TRUSTED_TEE_SIGNER :: string
  MAX_GAS_PRICE_GWEI :: nat
  GAS_BUFFER_PERCENT :: nat
  MEV_PROTECTION_ENABLED :: bool

definition CONFIG :: config where
  "CONFIG = \<lparr> TRUSTED_TEE_SIGNER = ''0x7E5F4552091A69125d5DfCb7b8C2659029395Bdf'',
              MAX_GAS_PRICE_GWEI = 50,
              GAS_BUFFER_PERCENT = 20,
              MEV_PROTECTION_ENABLED = True \<rparr>"

subsection \<open>Execution proofs\<close>

text \<open>
  A proof is the flat JSON object that \<^verbatim>\<open>mockFetchProofs\<close> returns. The numeric fields
  arrive as strings and are only ever read through \<^verbatim>\<open>BigInt(...)\<close>; the record holds
  the outcome of that conversion: \<open>Some n\<close> when \<^verbatim>\<open>BigInt\<close> yields \<open>n\<close>, \<open>None\<close> when it
  throws (a missing field or a string that is no integer literal). \<^verbatim>\<open>teeSignature\<close>
  is tested for presence by the validator, so it is an option; \<open>None\<close> stands for a
  missing field. \<^verbatim>\<open>timestamp\<close> is a whole number of seconds. Strings are ASCII.
\<close>

record execution_proof =
  batchId :: string
  timestamp :: int
  user :: string
  tokenIn :: string
  tokenOut :: string
  amountIn :: "int option"
  amountOut :: "int option"
  clearingPrice :: "int option"
  intentHash :: string
  userSignature :: string
  teeSignature :: "string option"
  teeSigner :: string
  merkleRoot :: string
  mevSaved :: "int option"

datatype error =
    BigIntError
  | TypeError
  | ProviderError string

subsection \<open>validateProof\<close>

definition lower_char :: "char \<Rightarrow> char" where
  "lower_char c =
     (if (65::nat) \<le> of_char c \<and> of_char c \<le> (90::nat)
      then char_of (of_char c + (32::nat)) else c)"

definition toLowerCase :: "string \<Rightarrow> string" where
  "toLowerCase s = map lower_char s"

text \<open>
  The four \<^verbatim>\<open>return false\<close> statements of \<^verbatim>\<open>validateProof\<close> are told apart by the
  line each logs first; the verdict keeps that line. \<open>Inr Accept\<close> is
  \<^verbatim>\<open>return true\<close>, \<open>Inr (Reject r)\<close> is \<^verbatim>\<open>return false\<close> after logging \<open>r\<close>, and
  \<open>Inl e\<close> is a \<^verbatim>\<open>BigInt\<close> conversion throwing in rule 4.
\<close>

datatype rejection =
    UntrustedSigner
  | ProofExpired
  | InvalidSignatureFormat
  | InvalidAmounts

datatype verdict = Accept | Reject rejection

text \<open>
  \<open>now\<close> is the value of \<^verbatim>\<open>Math.floor(Date.now() / 1000)\<close> on line 263.
\<close>

definition validateProof :: "config \<Rightarrow> int \<Rightarrow> execution_proof \<Rightarrow> error + verdict" where
  "validateProof cfg now p =
     (if toLowerCase (teeSigner p) \<noteq> toLowerCase (TRUSTED_TEE_SIGNER cfg)
      then Inr (Reject UntrustedSigner)
      else
        let proofAge = now - timestamp p in
        if proofAge > 3600 then Inr (Reject ProofExpired)
        else if (case teeSignature p of None \<Rightarrow> True | Some s \<Rightarrow> s = [] \<or> length s < 130)
        then Inr (Reject InvalidSignatureFormat)
        else
          (case amountIn p of
             None \<Rightarrow> Inl BigIntError
           | Some ain \<Rightarrow>
               (case amountOut p of
                  None \<Rightarrow> Inl BigIntError
                | Some aout \<Rightarrow>
                    if ain \<le> 0 \<or> aout \<le> 0 then Inr (Reject InvalidAmounts)
                    else Inr Accept)))"

text \<open>The four rules as the specification words them.\<close>

definition signer_trusted :: "config \<Rightarrow> execution_proof \<Rightarrow> bool" where
  "signer_trusted cfg p \<longleftrightarrow> toLowerCase (teeSigner p) = toLowerCase (TRUSTED_TEE_SIGNER cfg)"

definition fresh :: "int \<Rightarrow> execution_proof \<Rightarrow> bool" where
  "fresh now p \<longleftrightarrow> now - timestamp p \<le> 3600"

definition signature_well_formed :: "execution_proof \<Rightarrow> bool" where
  "signature_well_formed p \<longleftrightarrow> (\<exists>s. teeSignature p = Some s \<and> 130 \<le> length s)"

definition amounts_positive :: "execution_proof \<Rightarrow> bool" where
  "amounts_positive p \<longleftrightarrow>
     (\<exists>ain aout. amountIn p = Some ain \<and> amountOut p = Some aout \<and> 0 < ain \<and> 0 < aout)"

text \<open>The proof that \<^verbatim>\<open>mockFetchProofs\<close> fabricates, stamped with the time \<open>t\<close>.\<close>

definition mockProof :: "int \<Rightarrow> execution_proof" where
  "mockProof t =
     \<lparr> batchId = ''0x'' @ replicate 16 CHR ''a'',
       timestamp = t,
       user = ''0x742d35Cc6634C0532925a3b844Bc9e7595f8fE21'',
       tokenIn = ''0x036CbD53842c5426634e7929541eC2318f3dCF7e'',
       tokenOut = ''0x4200000000000000000000000000000000000006'',
       amountIn = Some 1000000000,
       amountOut = Some 385000000000000000,
       clearingPrice = Some 2598420000,
       intentHash = ''0x'' @ replicate 64 CHR ''b'',
       userSignature = ''0x'' @ replicate 130 CHR ''c'',
       teeSignature = Some (''0x'' @ replicate 130 CHR ''d''),
       teeSigner = TRUSTED_TEE_SIGNER CONFIG,
       merkleRoot = ''0x'' @ replicate 64 CHR ''e'',
       mevSaved = Some 23470000 \<rparr>"

subsection \<open>Provider, clock and console\<close>

text \<open>
  Everything the agent reads from outside is a script that the reads consume in order:
  the answers of \<^verbatim>\<open>provider.getFeeData()\<close> and \<^verbatim>\<open>provider.getBlockNumber()\<close> (a value or
  a thrown error with its message) and the successive values of
  \<^verbatim>\<open>Math.floor(Date.now() / 1000)\<close>. A provider whose script is used up throws; the last
  clock reading repeats. \<^verbatim>\<open>gasPrice\<close> is \<^verbatim>\<open>null | bigint\<close> in the provider's fee data and
  is never negative. \<^verbatim>\<open>sleep\<close> changes nothing but the time and is left to the clock
  script.

  The console keeps one event for each call of a method on a proof and for each
  decision, carrying the proof's \<^verbatim>\<open>intentHash\<close>; the free text of the log lines is
  dropped.
\<close>

datatype 'a response = Returns 'a | Throws string

record feeData =
  gasPrice :: "nat option"

datatype event =
    Scanning
  | Found nat
  | ValidateCall string
  | Rejected string rejection
  | TimingCall string
  | TimingResult string bool
  | Queued string
  | ExecuteCall string
  | TxSubmitted string
  | TxConfirmed string nat
  | ExecutionFailed string error
  | ProcessingQueue nat
  | MonitorLoopError error

record io =
  feeData_script :: "feeData response list"
  blockNumber_script :: "nat response list"
  clock_script :: "int list"
  console :: "event list"

definition emit :: "event \<Rightarrow> io \<Rightarrow> io" where
  "emit e w = w\<lparr>console := console w @ [e]\<rparr>"

definition getFeeData :: "io \<Rightarrow> feeData response \<times> io" where
  "getFeeData w =
     (case feeData_script w of
        [] \<Rightarrow> (Throws ''provider unreachable'', w)
      | r # rs \<Rightarrow> (r, w\<lparr>feeData_script := rs\<rparr>))"

definition getBlockNumber :: "io \<Rightarrow> nat response \<times> io" where
  "getBlockNumber w =
     (case blockNumber_script w of
        [] \<Rightarrow> (Throws ''provider unreachable'', w)
      | r # rs \<Rightarrow> (r, w\<lparr>blockNumber_script := rs\<rparr>))"

definition dateNow :: "io \<Rightarrow> int \<times> io" where
  "dateNow w =
     (case clock_script w of
        [] \<Rightarrow> (0, w)
      | [t] \<Rightarrow> (t, w)
      | t # ts \<Rightarrow> (t, w\<lparr>clock_script := ts\<rparr>))"

subsection \<open>The agent's fields\<close>

record stats =
  proofsProcessed :: nat
  successfulExecutions :: nat
  failedExecutions :: nat
  totalGasSpent :: int
  totalMevSaved :: int

record agent =
  processedProofs :: "string set"
  executionQueue :: "execution_proof list"
  stats :: stats

definition new_agent :: agent where
  "new_agent =
     \<lparr> processedProofs = {},
       executionQueue = [],
       stats = \<lparr> proofsProcessed = 0, successfulExecutions = 0, failedExecutions = 0,
                 totalGasSpent = 0, totalMevSaved = 0 \<rparr> \<rparr>"

subsection \<open>determineOptimalTiming and assessMEVRisk\<close>

datatype mev_risk = LOW | MEDIUM | HIGH

definition assessMEVRisk :: "execution_proof \<Rightarrow> error + mev_risk" where
  "assessMEVRisk p =
     (case amountIn p of
        None \<Rightarrow> Inl BigIntError
      | Some ain \<Rightarrow> if ain > 10000 * 10 ^ 6 then Inr MEDIUM else Inr LOW)"

text \<open>
  \<^verbatim>\<open>Number(currentGasPrice) / 1e9\<close>, with \<^verbatim>\<open>Number(null) = 0\<close>. The quotient is taken
  exactly: the only use of the value is the comparison with the ceiling, and the
  rounding of the double division is monotone and exact at the ceiling itself, so the
  comparison has the same outcome.
\<close>

definition gasPriceGwei :: "feeData \<Rightarrow> rat" where
  "gasPriceGwei fd = (case gasPrice fd of None \<Rightarrow> 0 | Some g \<Rightarrow> of_nat g / 1000000000)"

text \<open>Step 3 of \<^verbatim>\<open>determineOptimalTiming\<close>: the block number is read and logged.\<close>

definition checkBlockTiming :: "io \<Rightarrow> execution_proof \<Rightarrow> (error + bool) \<times> io" where
  "checkBlockTiming w p =
     (case getBlockNumber w of
        (Throws m, w1) \<Rightarrow> (Inl (ProviderError m), w1)
      | (Returns currentBlock, w1) \<Rightarrow>
          (Inr True, emit (TimingResult (intentHash p) True) w1))"

definition determineOptimalTiming ::
  "config \<Rightarrow> io \<Rightarrow> execution_proof \<Rightarrow> (error + bool) \<times> io" where
  "determineOptimalTiming cfg w p =
     (case getFeeData (emit (TimingCall (intentHash p)) w) of
        (Throws m, w1) \<Rightarrow> (Inl (ProviderError m), w1)
      | (Returns feeData, w1) \<Rightarrow>
          if gasPriceGwei feeData > of_nat (MAX_GAS_PRICE_GWEI cfg)
          then (Inr False, emit (TimingResult (intentHash p) False) w1)
          else if MEV_PROTECTION_ENABLED cfg
          then
            (case assessMEVRisk p of
               Inl e \<Rightarrow> (Inl e, w1)
             | Inr mevRisk \<Rightarrow>
                 if mevRisk = HIGH
                 then (Inr False, emit (TimingResult (intentHash p) False) w1)
                 else checkBlockTiming w1 p)
          else checkBlockTiming w1 p)"

subsection \<open>executeProof\<close>

record proofStruct =
  ps_batchId :: string
  ps_user :: string
  ps_tokenIn :: string
  ps_tokenOut :: string
  ps_amountIn :: int
  ps_amountOut :: int
  ps_clearingPrice :: int
  ps_intentHash :: string
  ps_userSignature :: string
  ps_teeSignature :: "string option"
  ps_merkleRoot :: string
  ps_deadline :: int

definition padEnd :: "nat \<Rightarrow> char \<Rightarrow> string \<Rightarrow> string" where
  "padEnd n c s = s @ replicate (n - length s) c"

definition proofStruct_of :: "io \<Rightarrow> execution_proof \<Rightarrow> (error + proofStruct) \<times> io" where
  "proofStruct_of w p =
     (case amountIn p of
        None \<Rightarrow> (Inl BigIntError, w)
      | Some ain \<Rightarrow>
          (case amountOut p of
             None \<Rightarrow> (Inl BigIntError, w)
           | Some aout \<Rightarrow>
               (case clearingPrice p of
                  None \<Rightarrow> (Inl BigIntError, w)
                | Some cp \<Rightarrow>
                    (case dateNow w of
                       (now, w1) \<Rightarrow>
                         (Inr \<lparr> ps_batchId = take 66 (padEnd 66 CHR ''0'' (batchId p)),
                                ps_user = user p,
                                ps_tokenIn = tokenIn p,
                                ps_tokenOut = tokenOut p,
                                ps_amountIn = ain,
                                ps_amountOut = aout,
                                ps_clearingPrice = cp,
                                ps_intentHash = intentHash p,
                                ps_userSignature = userSignature p,
                                ps_teeSignature = teeSignature p,
                                ps_merkleRoot = merkleRoot p,
                                ps_deadline = now + 300 \<rparr>, w1)))))"

text \<open>
  The body of the \<^verbatim>\<open>try\<close> block, statement by statement. It returns the fields as
  they stand when it completes or throws. The transaction itself is commented out in
  the source: the struct and the buffered gas limit are computed and not used, and the
  submission is the log line of the mock hash. The random mock hash is not modelled.
\<close>

definition executeProof_try ::
  "config \<Rightarrow> io \<Rightarrow> agent \<Rightarrow> execution_proof \<Rightarrow> (error + unit) \<times> io \<times> agent" where
  "executeProof_try cfg w st p =
     (let st1 = st\<lparr>processedProofs := insert (intentHash p) (processedProofs st)\<rparr>;
          st2 = st1\<lparr>stats := (stats st1)\<lparr>proofsProcessed := proofsProcessed (stats st1) + 1\<rparr>\<rparr>
      in
        case proofStruct_of w p of
          (Inl e, w1) \<Rightarrow> (Inl e, w1, st2)
        | (Inr proofStruct, w1) \<Rightarrow>
            let gasEstimate = (250000::int);
                gasWithBuffer = gasEstimate * int (100 + GAS_BUFFER_PERCENT cfg) div 100
            in
              (case getFeeData w1 of
                 (Throws m, w2) \<Rightarrow> (Inl (ProviderError m), w2, st2)
               | (Returns fd, w2) \<Rightarrow>
                   (case getBlockNumber (emit (TxSubmitted (intentHash p)) w2) of
                      (Throws m, w3) \<Rightarrow> (Inl (ProviderError m), w3, st2)
                    | (Returns mockBlockNumber, w3) \<Rightarrow>
                        let w4 = emit (TxConfirmed (intentHash p) mockBlockNumber) w3;
                            st3 = st2\<lparr>stats := (stats st2)
                                    \<lparr>successfulExecutions := successfulExecutions (stats st2) + 1\<rparr>\<rparr>
                        in
                          (case gasPrice fd of
                             None \<Rightarrow> (Inl TypeError, w4, st3)
                           | Some g \<Rightarrow>
                               let st4 = st3\<lparr>stats := (stats st3)
                                       \<lparr>totalGasSpent :=
                                          totalGasSpent (stats st3) + gasEstimate * int g\<rparr>\<rparr>
                               in
                                 (case mevSaved p of
                                    None \<Rightarrow> (Inl BigIntError, w4, st4)
                                  | Some m \<Rightarrow>
                                      (Inr (), w4,
                                       st4\<lparr>stats := (stats st4)
                                           \<lparr>totalMevSaved := totalMevSaved (stats st4) + m\<rparr>\<rparr>))))))"

datatype exec_result = ExecSuccess | ExecFailure error

text \<open>The \<^verbatim>\<open>try\<close> with its \<^verbatim>\<open>catch\<close>.\<close>

definition executeProof ::
  "config \<Rightarrow> io \<Rightarrow> agent \<Rightarrow> execution_proof \<Rightarrow> exec_result \<times> io \<times> agent" where
  "executeProof cfg w st p =
     (case executeProof_try cfg (emit (ExecuteCall (intentHash p)) w) st p of
        (Inr u, w', st') \<Rightarrow> (ExecSuccess, w', st')
      | (Inl e, w', st') \<Rightarrow>
          (ExecFailure e,
           emit (ExecutionFailed (intentHash p) e) w',
           st'\<lparr>stats := (stats st')\<lparr>failedExecutions := failedExecutions (stats st') + 1\<rparr>,
               processedProofs := processedProofs st' - {intentHash p}\<rparr>))"

subsection \<open>processQueue\<close>

text \<open>The \<^verbatim>\<open>for\<close> loop over the copy \<^verbatim>\<open>toProcess\<close>; a throw leaves the loop.\<close>

fun processQueue_loop ::
  "config \<Rightarrow> execution_proof list \<Rightarrow> io \<Rightarrow> agent \<Rightarrow> (error + unit) \<times> io \<times> agent" where
  "processQueue_loop cfg [] w st = (Inr (), w, st)"
| "processQueue_loop cfg (p # toProcess) w st =
     (case determineOptimalTiming cfg w p of
        (Inl e, w1) \<Rightarrow> (Inl e, w1, st)
      | (Inr True, w1) \<Rightarrow>
          (case executeProof cfg w1 st p of
             (r, w2, st2) \<Rightarrow> processQueue_loop cfg toProcess w2 st2)
      | (Inr False, w1) \<Rightarrow>
          processQueue_loop cfg toProcess w1
            (st\<lparr>executionQueue := executionQueue st @ [p]\<rparr>))"

definition processQueue :: "config \<Rightarrow> io \<Rightarrow> agent \<Rightarrow> (error + unit) \<times> io \<times> agent" where
  "processQueue cfg w st =
     (if executionQueue st = [] then (Inr (), w, st)
      else
        let toProcess = executionQueue st in
        processQueue_loop cfg toProcess
          (emit (ProcessingQueue (length toProcess)) w)
          (st\<lparr>executionQueue := []\<rparr>))"

subsection \<open>fetchPendingProofs and the monitoring loop\<close>

text \<open>
  \<open>src\<close> is what \<^verbatim>\<open>mockFetchProofs\<close> returns: the proofs of the TEE output file, or the
  single mock proof.
\<close>

definition fetchPendingProofs :: "agent \<Rightarrow> execution_proof list \<Rightarrow> execution_proof list" where
  "fetchPendingProofs st src = filter (\<lambda>p. intentHash p \<notin> processedProofs st) src"

text \<open>
  The body of \<^verbatim>\<open>for (const proof of proofs)\<close> in \<^verbatim>\<open>monitorAndExecute\<close>. The clock
  reading that \<^verbatim>\<open>validateProof\<close> takes is read here, on every call; the source reads it
  once rule 1 has passed, which differs by entries of the clock script only.
\<close>

definition monitor_proof ::
  "config \<Rightarrow> io \<Rightarrow> agent \<Rightarrow> execution_proof \<Rightarrow> (error + unit) \<times> io \<times> agent" where
  "monitor_proof cfg w st p =
     (case dateNow (emit (ValidateCall (intentHash p)) w) of
        (now, w1) \<Rightarrow>
          (case validateProof cfg now p of
             Inl e \<Rightarrow> (Inl e, w1, st)
           | Inr (Reject r) \<Rightarrow> (Inr (), emit (Rejected (intentHash p) r) w1, st)
           | Inr Accept \<Rightarrow>
               (case determineOptimalTiming cfg w1 p of
                  (Inl e, w2) \<Rightarrow> (Inl e, w2, st)
                | (Inr True, w2) \<Rightarrow>
                    (case executeProof cfg w2 st p of
                       (r, w3, st3) \<Rightarrow> (Inr (), w3, st3))
                | (Inr False, w2) \<Rightarrow>
                    (Inr (), emit (Queued (intentHash p)) w2,
                     st\<lparr>executionQueue := executionQueue st @ [p]\<rparr>))))"

fun monitor_proofs ::
  "config \<Rightarrow> execution_proof list \<Rightarrow> io \<Rightarrow> agent \<Rightarrow> (error + unit) \<times> io \<times> agent" where
  "monitor_proofs cfg [] w st = (Inr (), w, st)"
| "monitor_proofs cfg (p # proofs) w st =
     (case monitor_proof cfg w st p of
        (Inl e, w1, st1) \<Rightarrow> (Inl e, w1, st1)
      | (Inr u, w1, st1) \<Rightarrow> monitor_proofs cfg proofs w1 st1)"

text \<open>
  One iteration of \<^verbatim>\<open>while (this.isRunning)\<close>: the \<^verbatim>\<open>try\<close> block, and the \<^verbatim>\<open>catch\<close> that
  logs the error. The two sleeps only let time pass.
\<close>

definition monitor_cycle ::
  "config \<Rightarrow> execution_proof list \<Rightarrow> io \<times> agent \<Rightarrow> io \<times> agent" where
  "monitor_cycle cfg src ws =
     (case ws of
        (w, st) \<Rightarrow>
          let w0 = emit Scanning w;
              proofs = fetchPendingProofs st src
          in
            (case (if proofs \<noteq> []
                   then monitor_proofs cfg proofs (emit (Found (length proofs)) w0) st
                   else (Inr (), w0, st)) of
               (Inl e, w1, st1) \<Rightarrow> (emit (MonitorLoopError e) w1, st1)
             | (Inr u, w1, st1) \<Rightarrow>
                 (case processQueue cfg w1 st1 of
                    (Inl e, w2, st2) \<Rightarrow> (emit (MonitorLoopError e) w2, st2)
                  | (Inr u', w2, st2) \<Rightarrow> (w2, st2))))"

text \<open>
  The loop runs until \<^verbatim>\<open>stop()\<close> clears \<^verbatim>\<open>isRunning\<close> from outside; \<open>srcs\<close> lists what the
  proof source returned in each iteration that ran.
\<close>

fun monitorAndExecute ::
  "config \<Rightarrow> execution_proof list list \<Rightarrow> io \<times> agent \<Rightarrow> io \<times> agent" where
  "monitorAndExecute cfg [] ws = ws"
| "monitorAndExecute cfg (src # srcs) ws = monitorAndExecute cfg srcs (monitor_cycle cfg src ws)"

subsection \<open>Observations on a run\<close>

text \<open>
  What the console shows of a run: the proofs on which \<^verbatim>\<open>executeProof\<close> and
  \<^verbatim>\<open>determineOptimalTiming\<close> were called, in order, and the answers of the latter.
\<close>

fun executed_of :: "event \<Rightarrow> string list" where
  "executed_of (ExecuteCall h) = [h]"
| "executed_of e = []"

definition executeCalls :: "event list \<Rightarrow> string list" where
  "executeCalls es = concat (map executed_of es)"

fun timing_of :: "event \<Rightarrow> string list" where
  "timing_of (TimingCall h) = [h]"
| "timing_of e = []"

definition timingCalls :: "event list \<Rightarrow> string list" where
  "timingCalls es = concat (map timing_of es)"

fun verdict_of :: "event \<Rightarrow> (string \<times> bool) list" where
  "verdict_of (TimingResult h go) = [(h, go)]"
| "verdict_of e = []"

definition timingVerdicts :: "event list \<Rightarrow> (string \<times> bool) list" where
  "timingVerdicts es = concat (map verdict_of es)"




text \<open>
  \<open>attempts_counted x y\<close>: from \<open>x\<close> to \<open>y\<close> the console has grown and
  \<^verbatim>\<open>proofsProcessed\<close> has grown by the number of calls of \<^verbatim>\<open>executeProof\<close> logged
  in between.
\<close>

definition attempts_counted :: "io \<times> agent \<Rightarrow> io \<times> agent \<Rightarrow> bool" where
  "attempts_counted x y \<longleftrightarrow>
     (\<exists>new. console (fst y) = console (fst x) @ new
        \<and> proofsProcessed (stats (snd y))
            = proofsProcessed (stats (snd x)) + length (executeCalls new))"

text \<open>
  \<open>steps_keep cfg P R\<close>: the relation \<open>R\<close> between two moments of a run is reflexive
  and transitive and holds across each elementary step of the loop: a call of
  \<^verbatim>\<open>executeProof\<close> on a proof satisfying \<open>P\<close>, a call of \<^verbatim>\<open>determineOptimalTiming\<close>,
  a log line other than the entry of \<^verbatim>\<open>executeProof\<close>, a clock reading, and an
  assignment to \<^verbatim>\<open>executionQueue\<close>.
\<close>

definition steps_keep ::
  "config \<Rightarrow> (execution_proof \<Rightarrow> bool) \<Rightarrow> (io \<times> agent \<Rightarrow> io \<times> agent \<Rightarrow> bool) \<Rightarrow> bool" where
  "steps_keep cfg P R \<longleftrightarrow>
     (\<forall>x. R x x)
     \<and> (\<forall>x y z. R x y \<longrightarrow> R y z \<longrightarrow> R x z)
     \<and> (\<forall>w st p. P p \<longrightarrow> R (w, st) (snd (executeProof cfg w st p)))
     \<and> (\<forall>w st p. R (w, st) (snd (determineOptimalTiming cfg w p), st))
     \<and> (\<forall>w st e. executed_of e = [] \<longrightarrow> R (w, st) (emit e w, st))
     \<and> (\<forall>w st. R (w, st) (snd (dateNow w), st))
     \<and> (\<forall>w st q. R (w, st) (w, st\<lparr>executionQueue := q\<rparr>))"

subsection \<open>Sample inputs\<close>

text \<open>
  A provider answer of 5 gwei and one of 75 gwei, in wei as the provider reports them,
  and an outside world that starts with the given provider scripts, the clock at
  1700000010 and an empty console.
\<close>

definition calm :: "feeData response" where
  "calm = Returns \<lparr>gasPrice = Some 5000000000\<rparr>"

definition congested :: "feeData response" where
  "congested = Returns \<lparr>gasPrice = Some 75000000000\<rparr>"

definition demo_io :: "feeData response list \<Rightarrow> nat response list \<Rightarrow> io" where
  "demo_io fs bs =
     \<lparr> feeData_script = fs, blockNumber_script = bs, clock_script = [1700000010], console = [] \<rparr>"

text \<open>\<^verbatim>\<open>executeProof\<close> called on the mock proof, and called again on it afterwards.\<close>

definition first_call :: "exec_result \<times> io \<times> agent" where
  "first_call =
     executeProof CONFIG (demo_io [calm, calm] [Returns 100, Returns 101]) new_agent
       (mockProof 1700000000)"

definition second_call :: "exec_result \<times> io \<times> agent" where
  "second_call =
     executeProof CONFIG (fst (snd first_call)) (snd (snd first_call)) (mockProof 1700000000)"

text \<open>
  Two iterations of the loop in which the source returns the mock proof both times: gas
  is at 75 gwei throughout the first iteration and at 5 gwei in the second.
\<close>

definition mock_source :: "execution_proof list" where
  "mock_source = [mockProof 1700000000]"

definition deferred_then_refetched :: "io \<times> agent" where
  "deferred_then_refetched =
     monitorAndExecute CONFIG [mock_source, mock_source]
       (demo_io [congested, congested, calm, calm, calm, calm]
                [Returns 100, Returns 101, Returns 102, Returns 103],
        new_agent)"




text \<open>
  Two iterations in which the source returns the mock proof: in the first the proof is
  ten seconds old and gas is at 75 gwei, in the second the proof is 4000 seconds old and
  gas is at 5 gwei.
\<close>

definition expired_while_queued :: "io \<times> agent" where
  "expired_while_queued =
     monitorAndExecute CONFIG [mock_source, mock_source]
       (\<lparr> feeData_script = [congested, congested, calm, calm],
          blockNumber_script = [Returns 100, Returns 101],
          clock_script = [1700000010, 1700004000],
          console = [] \<rparr>,
        new_agent)"

text \<open>One iteration in which the mock proof is valid and gas stays at 75 gwei.\<close>

definition deferred_once :: "io \<times> agent" where
  "deferred_once =
     monitor_cycle CONFIG [mockProof 1700000000] (demo_io [congested, congested] [], new_agent)"



text \<open>
  Three proofs in the queue; while it is drained gas is at 75 gwei for the first proof
  and the provider times out on the second.
\<close>

definition other_proof :: "char \<Rightarrow> execution_proof" where
  "other_proof c = (mockProof 1700000000)\<lparr>intentHash := [c]\<rparr>"

definition three_queued :: agent where
  "three_queued =
     new_agent\<lparr>executionQueue :=
       [other_proof CHR ''a'', other_proof CHR ''b'', other_proof CHR ''c'']\<rparr>"

definition drain_interrupted :: "(error + unit) \<times> io \<times> agent" where
  "drain_interrupted =
     processQueue CONFIG (demo_io [congested, Throws ''timeout''] []) three_queued"

section \<open>Properties of the validator\<close>

lemmas io_defs = emit_def getFeeData_def getBlockNumber_def dateNow_def

lemmas exec_defs = executeProof_def executeProof_try_def proofStruct_of_def

lemmas timing_defs =
  determineOptimalTiming_def checkBlockTiming_def assessMEVRisk_def gasPriceGwei_def

lemmas demo_defs = demo_io_def calm_def congested_def new_agent_def mockProof_def CONFIG_def

lemmas cycle_defs =
  monitor_cycle_def monitor_proof_def processQueue_def fetchPendingProofs_def
  validateProof_def toLowerCase_def lower_char_def

lemma signature_gate:
  "(case teeSignature p of None \<Rightarrow> True | Some s \<Rightarrow> s = [] \<or> length s < 130)
     \<longleftrightarrow> \<not> signature_well_formed p"
  by (auto simp: signature_well_formed_def split: option.splits)

text \<open>
  Claim C2. \<^verbatim>\<open>validateProof\<close> is a function of the proof, the trusted identity and
  the clock reading alone. It accepts exactly when the signer matches the trusted
  identity up to letter case, the age is at most 3600 seconds, the signature is present
  with at least 130 characters, and both amounts are positive. The rules are tried in
  this order and the rejection is that of the first rule that fails.
\<close>

theorem validateProof_rules:
  "(validateProof cfg now p = Inr Accept \<longleftrightarrow>
      signer_trusted cfg p \<and> fresh now p \<and> signature_well_formed p \<and> amounts_positive p)
   \<and> (validateProof cfg now p = Inr (Reject UntrustedSigner) \<longleftrightarrow> \<not> signer_trusted cfg p)
   \<and> (validateProof cfg now p = Inr (Reject ProofExpired) \<longleftrightarrow>
        signer_trusted cfg p \<and> \<not> fresh now p)
   \<and> (validateProof cfg now p = Inr (Reject InvalidSignatureFormat) \<longleftrightarrow>
        signer_trusted cfg p \<and> fresh now p \<and> \<not> signature_well_formed p)
   \<and> (validateProof cfg now p \<in> {Inr (Reject InvalidAmounts), Inl BigIntError} \<longleftrightarrow>
        signer_trusted cfg p \<and> fresh now p \<and> signature_well_formed p \<and> \<not> amounts_positive p)
   \<and> (TRUSTED_TEE_SIGNER cfg' = TRUSTED_TEE_SIGNER cfg \<longrightarrow>
        validateProof cfg' now p = validateProof cfg now p)"
  unfolding validateProof_def signature_gate Let_def
  by (auto simp: signer_trusted_def fresh_def amounts_positive_def split: option.splits)

theorem validateProof_rules_witness:
  "validateProof CONFIG 1700000010 (mockProof 1700000000) = Inr Accept
   \<and> validateProof (CONFIG\<lparr>MAX_GAS_PRICE_GWEI := 7\<rparr>) 1700000010 (mockProof 1700000000)
       = validateProof CONFIG 1700000010 (mockProof 1700000000)
   \<and> validateProof CONFIG 1700004000 (mockProof 1700000000) = Inr (Reject ProofExpired)"
  using validateProof_rules [of CONFIG 1700000010 "mockProof 1700000000"
      "CONFIG\<lparr>MAX_GAS_PRICE_GWEI := 7\<rparr>"]
    validateProof_rules [of CONFIG 1700004000 "mockProof 1700000000" CONFIG]
  by (simp add: signer_trusted_def fresh_def signature_well_formed_def amounts_positive_def
      mockProof_def CONFIG_def)

text \<open>
  Claim C10. The freshness rule bounds the age from above only. A proof stamped at or
  after the clock reading, however far ahead, has a non-positive age, is never rejected
  as expired, and is accepted whenever the other three rules hold.
\<close>

theorem validateProof_future_dated:
  assumes "now \<le> timestamp p"
  shows "now - timestamp p \<le> 0
    \<and> validateProof cfg now p \<noteq> Inr (Reject ProofExpired)
    \<and> (signer_trusted cfg p \<and> signature_well_formed p \<and> amounts_positive p
           \<longrightarrow> validateProof cfg now p = Inr Accept)"
  using assms unfolding validateProof_def signature_gate Let_def
  by (auto simp: signer_trusted_def amounts_positive_def split: option.splits)

theorem validateProof_future_dated_witness:
  "(1700000000::int) \<le> timestamp (mockProof 99999999999)
   \<and> validateProof CONFIG 1700000000 (mockProof 99999999999) = Inr Accept"
  using validateProof_future_dated [of 1700000000 "mockProof 99999999999" CONFIG]
  by (simp add: signer_trusted_def signature_well_formed_def amounts_positive_def
      mockProof_def CONFIG_def)

section \<open>Properties of the timing advisor\<close>

lemma gasPriceGwei_ceiling:
  "gasPriceGwei fd > of_nat c \<longleftrightarrow> (\<exists>g. gasPrice fd = Some g \<and> g > c * 1000000000)"
proof (cases "gasPrice fd")
  case None
  then show ?thesis by (simp add: gasPriceGwei_def)
next
  case (Some g)
  have "(of_nat c :: rat) < of_nat g / 1000000000 \<longleftrightarrow> (of_nat (c * 1000000000) :: rat) < of_nat g"
    by (simp add: pos_less_divide_eq)
  also have "\<dots> \<longleftrightarrow> c * 1000000000 < g"
    by (simp only: of_nat_less_iff)
  finally show ?thesis using Some by (simp add: gasPriceGwei_def)
qed

text \<open>
  Claim C5. Once the fee data has been read, \<^verbatim>\<open>determineOptimalTiming\<close> returns false
  for every proof when the gas price in gwei exceeds the ceiling, which is 50 in
  \<^verbatim>\<open>CONFIG\<close>. \<^verbatim>\<open>assessMEVRisk\<close> answers MEDIUM above 10000 * 10^6 and LOW otherwise, never
  HIGH. When the block number is read as well, the answer is true exactly when the price
  does not exceed the ceiling.
\<close>

theorem determineOptimalTiming_gates:
  assumes "getFeeData (emit (TimingCall (intentHash p)) w) = (Returns fd, w1)"
  shows "MAX_GAS_PRICE_GWEI CONFIG = 50
    \<and> (gasPriceGwei fd > of_nat (MAX_GAS_PRICE_GWEI cfg)
          \<longrightarrow> fst (determineOptimalTiming cfg w p) = Inr False)
    \<and> (amountIn p = Some a \<longrightarrow>
          assessMEVRisk p = Inr (if a > 10000 * 10 ^ 6 then MEDIUM else LOW))
    \<and> assessMEVRisk p \<noteq> Inr HIGH
    \<and> (fst (getBlockNumber w1) = Returns b
          \<and> (MEV_PROTECTION_ENABLED cfg \<longrightarrow> amountIn p \<noteq> None)
          \<longrightarrow> fst (determineOptimalTiming cfg w p)
                = Inr (gasPriceGwei fd \<le> of_nat (MAX_GAS_PRICE_GWEI cfg)))"
  using assms
  by (auto simp: determineOptimalTiming_def checkBlockTiming_def assessMEVRisk_def CONFIG_def
      split: option.splits prod.splits response.splits sum.splits)

theorem determineOptimalTiming_gates_witness:
  "fst (determineOptimalTiming CONFIG (demo_io [congested] [Returns 100]) (mockProof 1700000000))
     = Inr False
   \<and> fst (determineOptimalTiming CONFIG (demo_io [calm] [Returns 100]) (mockProof 1700000000))
     = Inr True
   \<and> assessMEVRisk (mockProof 1700000000) = Inr LOW"
  using determineOptimalTiming_gates [of "mockProof 1700000000" "demo_io [congested] [Returns 100]"
      "\<lparr>gasPrice = Some 75000000000\<rparr>"
      "\<lparr> feeData_script = [], blockNumber_script = [Returns 100], clock_script = [1700000010],
         console = [TimingCall (intentHash (mockProof 1700000000))] \<rparr>" CONFIG 1000000000 100]
    determineOptimalTiming_gates [of "mockProof 1700000000" "demo_io [calm] [Returns 100]"
      "\<lparr>gasPrice = Some 5000000000\<rparr>"
      "\<lparr> feeData_script = [], blockNumber_script = [Returns 100], clock_script = [1700000010],
         console = [TimingCall (intentHash (mockProof 1700000000))] \<rparr>" CONFIG 1000000000 100]
  by (simp add: getFeeData_def getBlockNumber_def emit_def demo_io_def calm_def congested_def
      gasPriceGwei_def mockProof_def CONFIG_def)

section \<open>Properties of the execution engine\<close>



text \<open>
  Claim C1: a second call of \<^verbatim>\<open>executeProof\<close> on an identifier that the first call
  settled submits nothing and changes nothing. The code does otherwise:
  \<^verbatim>\<open>executeProof\<close> never reads \<^verbatim>\<open>processedProofs\<close>, and called again on the proof that
  its first call settled it submits and confirms a second time, and every counter and
  total moves again.
\<close>

theorem executeProof_twice_submits_twice:
  "fst first_call = ExecSuccess
   \<and> intentHash (mockProof 1700000000) \<in> processedProofs (snd (snd first_call))
   \<and> fst second_call = ExecSuccess
   \<and> count_list (console (fst (snd second_call)))
        (TxSubmitted (intentHash (mockProof 1700000000))) = 2
   \<and> stats (snd (snd first_call)) =
        \<lparr> proofsProcessed = 1, successfulExecutions = 1, failedExecutions = 0,
          totalGasSpent = 1250000000000000, totalMevSaved = 23470000 \<rparr>
   \<and> stats (snd (snd second_call)) =
        \<lparr> proofsProcessed = 2, successfulExecutions = 2, failedExecutions = 0,
          totalGasSpent = 2500000000000000, totalMevSaved = 46940000 \<rparr>"
  by (simp add: first_call_def second_call_def exec_defs io_defs demo_defs Let_def)

text \<open>
  The loop itself makes the second call: a proof deferred in one iteration stays in the
  queue without being marked, is fetched again in the next, and is then executed once
  as a fresh candidate and once more from the queue.
\<close>

lemma deferred_proof_submitted_twice:
  "count_list (console (fst deferred_then_refetched))
     (TxSubmitted (intentHash (mockProof 1700000000))) = 2
   \<and> successfulExecutions (stats (snd deferred_then_refetched)) = 2"
  by (simp add: deferred_then_refetched_def mock_source_def cycle_defs timing_defs exec_defs
      io_defs demo_defs Let_def)

section \<open>Properties of the monitoring loop\<close>



text \<open>
  Nor does a rejection keep the engine away from the proof: a copy that an earlier
  iteration deferred stays in the queue; the proof is fetched again, rejected as expired,
  and then executed from the queue in the same iteration.
\<close>

lemma rejected_proof_executed_from_queue:
  "console (fst expired_while_queued) =
     [Scanning, Found 1, ValidateCall (intentHash (mockProof 1700000000)),
      TimingCall (intentHash (mockProof 1700000000)),
      TimingResult (intentHash (mockProof 1700000000)) False,
      Queued (intentHash (mockProof 1700000000)),
      ProcessingQueue 1,
      TimingCall (intentHash (mockProof 1700000000)),
      TimingResult (intentHash (mockProof 1700000000)) False,
      Scanning, Found 1, ValidateCall (intentHash (mockProof 1700000000)),
      Rejected (intentHash (mockProof 1700000000)) ProofExpired,
      ProcessingQueue 1,
      TimingCall (intentHash (mockProof 1700000000)),
      TimingResult (intentHash (mockProof 1700000000)) True,
      ExecuteCall (intentHash (mockProof 1700000000)),
      TxSubmitted (intentHash (mockProof 1700000000)),
      TxConfirmed (intentHash (mockProof 1700000000)) 101]
   \<and> successfulExecutions (stats (snd expired_while_queued)) = 1"
  by (simp add: expired_while_queued_def mock_source_def cycle_defs timing_defs exec_defs
      io_defs demo_defs Let_def)




text \<open>
  Claim C7. \<^verbatim>\<open>fetchPendingProofs\<close> returns no proof whose identifier is in
  \<^verbatim>\<open>processedProofs\<close>. An iteration whose source repeats such a proof runs exactly as
  the iteration without it; when the source returns processed proofs only, the
  iteration is the one of an empty source, and with an empty queue it changes no field
  of the agent and logs the scan alone.
\<close>

theorem fetchPendingProofs_filters_processed:
  "(\<forall>p \<in> set (fetchPendingProofs st src). intentHash p \<notin> processedProofs st)
   \<and> (intentHash q \<in> processedProofs st \<longrightarrow>
        fetchPendingProofs st (xs @ q # ys) = fetchPendingProofs st (xs @ ys)
        \<and> monitor_cycle cfg (xs @ q # ys) (w, st) = monitor_cycle cfg (xs @ ys) (w, st))
   \<and> ((\<forall>p \<in> set src. intentHash p \<in> processedProofs st) \<longrightarrow>
        fetchPendingProofs st src = []
        \<and> monitor_cycle cfg src (w, st) = monitor_cycle cfg [] (w, st)
        \<and> (executionQueue st = [] \<longrightarrow> monitor_cycle cfg src (w, st) = (emit Scanning w, st)))"
  by (auto simp: fetchPendingProofs_def monitor_cycle_def processQueue_def Let_def
      filter_empty_conv)

theorem fetchPendingProofs_filters_processed_witness:
  "intentHash (mockProof 1700000000) \<in> processedProofs (snd (snd first_call))
   \<and> fetchPendingProofs (snd (snd first_call)) [mockProof 1700000000] = []
   \<and> monitor_cycle CONFIG [mockProof 1700000000] (demo_io [] [], snd (snd first_call))
       = (emit Scanning (demo_io [] []), snd (snd first_call))"
proof -
  have marked: "intentHash (mockProof 1700000000) \<in> processedProofs (snd (snd first_call))"
    by (simp add: first_call_def exec_defs io_defs demo_defs Let_def)
  have idle: "executionQueue (snd (snd first_call)) = []"
    by (simp add: first_call_def exec_defs io_defs demo_defs Let_def)
  from marked have "\<forall>p \<in> set [mockProof 1700000000]. intentHash p \<in> processedProofs (snd (snd first_call))"
    by simp
  with marked idle
    fetchPendingProofs_filters_processed [of "snd (snd first_call)" "[mockProof 1700000000]"
      "mockProof 1700000000" "[]" "[]" CONFIG "demo_io [] []"]
  show ?thesis by blast
qed

section \<open>Relations kept by every step of the loop\<close>

lemma executeProof_queue: "executionQueue (snd (snd (executeProof cfg w st p))) = executionQueue st"
  by (auto simp: exec_defs Let_def split: option.splits prod.splits sum.splits response.splits)

lemma steps_keepD:
  assumes "steps_keep cfg P R"
  shows "R x x"
    and "R x y \<Longrightarrow> R y z \<Longrightarrow> R x z"
    and "P p \<Longrightarrow> executeProof cfg w st p = (r, w', st') \<Longrightarrow> R (w, st) (w', st')"
    and "determineOptimalTiming cfg w p = (t, w') \<Longrightarrow> R (w, st) (w', st)"
    and "executed_of e = [] \<Longrightarrow> R (w, st) (emit e w, st)"
    and "dateNow w = (now, w') \<Longrightarrow> R (w, st) (w', st)"
    and "R (w, st) (w, st\<lparr>executionQueue := q\<rparr>)"
proof -
  from assms show "R x x" unfolding steps_keep_def by blast
  from assms show "R x y \<Longrightarrow> R y z \<Longrightarrow> R x z" unfolding steps_keep_def by blast
  from assms have "P p \<Longrightarrow> R (w, st) (snd (executeProof cfg w st p))" unfolding steps_keep_def by blast
  then show "P p \<Longrightarrow> executeProof cfg w st p = (r, w', st') \<Longrightarrow> R (w, st) (w', st')" by simp
  from assms have "R (w, st) (snd (determineOptimalTiming cfg w p), st)" unfolding steps_keep_def by blast
  then show "determineOptimalTiming cfg w p = (t, w') \<Longrightarrow> R (w, st) (w', st)" by simp
  from assms show "executed_of e = [] \<Longrightarrow> R (w, st) (emit e w, st)"
    unfolding steps_keep_def by blast
  from assms have "R (w, st) (snd (dateNow w), st)" unfolding steps_keep_def by blast
  then show "dateNow w = (now, w') \<Longrightarrow> R (w, st) (w', st)" by simp
  from assms show "R (w, st) (w, st\<lparr>executionQueue := q\<rparr>)" unfolding steps_keep_def by blast
qed

lemma processQueue_loop_keeps:
  assumes "steps_keep cfg P R" and "processQueue_loop cfg ps w st = (x, w', st')" and "list_all P ps"
  shows "R (w, st) (w', st')
         \<and> set (executionQueue st') \<subseteq> set (executionQueue st) \<union> set ps"
  using assms(2,3)
proof (induction ps arbitrary: w st)
  case Nil
  then show ?case by (auto simp: steps_keepD(1) [OF assms(1)])
next
  case (Cons p ps)
  note rs = steps_keepD [OF assms(1)]
  obtain t w1 where t: "determineOptimalTiming cfg w p = (t, w1)" by force
  note r1 = rs(4) [OF t, of st]
  from Cons.prems(2) have Pp: "P p" and Pps: "list_all P ps" by simp_all
  show ?case
  proof (cases t)
    case (Inl e)
    with Cons.prems t r1 show ?thesis by auto
  next
    case (Inr go)
    show ?thesis
    proof (cases go)
      case True
      obtain r w2 st2 where e: "executeProof cfg w1 st p = (r, w2, st2)"
        by (metis prod_cases3)
      have q: "executionQueue st2 = executionQueue st"
        using executeProof_queue [of cfg w1 st p] e by simp
      from Cons.prems(1) t Inr True e
      have "processQueue_loop cfg ps w2 st2 = (x, w', st')" by simp
      from Cons.IH [OF this Pps] rs(2) [OF r1 rs(3) [OF Pp e]] q show ?thesis
        by (auto intro: rs(2))
    next
      case False
      from Cons.prems(1) t Inr False
      have "processQueue_loop cfg ps w1 (st\<lparr>executionQueue := executionQueue st @ [p]\<rparr>) = (x, w', st')"
        by simp
      from Cons.IH [OF this Pps] rs(2) [OF r1 rs(7) [of w1 st "executionQueue st @ [p]"]]
      show ?thesis by (auto intro: rs(2))
    qed
  qed
qed

lemma processQueue_keeps:
  assumes "steps_keep cfg P R" and "processQueue cfg w st = (x, w', st')"
    and "list_all P (executionQueue st)"
  shows "R (w, st) (w', st') \<and> set (executionQueue st') \<subseteq> set (executionQueue st)"
proof (cases "executionQueue st = []")
  case True
  with assms(2) show ?thesis by (auto simp: processQueue_def steps_keepD(1) [OF assms(1)])
next
  case False
  note rs = steps_keepD [OF assms(1)]
  let ?w = "emit (ProcessingQueue (length (executionQueue st))) w"
  from False assms(2) have "processQueue_loop cfg (executionQueue st) ?w
      (st\<lparr>executionQueue := []\<rparr>) = (x, w', st')"
    by (simp add: processQueue_def Let_def)
  from processQueue_loop_keeps [OF assms(1) this assms(3)]
    rs(2) [OF rs(5) [where e = "ProcessingQueue (length (executionQueue st))" and w = w and st = st, simplified] rs(7) [of ?w st "[]"]]
  show ?thesis by (auto intro: rs(2))
qed

lemma monitor_proof_keeps:
  assumes "steps_keep cfg P R" and "monitor_proof cfg w st p = (x, w', st')" and "P p"
  shows "R (w, st) (w', st')
         \<and> set (executionQueue st') \<subseteq> set (executionQueue st) \<union> {p}"
proof -
  note rs = steps_keepD [OF assms(1)]
  let ?w0 = "emit (ValidateCall (intentHash p)) w"
  obtain now w1 where n: "dateNow ?w0 = (now, w1)" by force
  have r1: "R (w, st) (w1, st)"
    using rs(2) [OF rs(5) [where e = "ValidateCall (intentHash p)" and w = w and st = st, simplified] rs(6) [OF n, of st]] .
  show ?thesis
  proof (cases "validateProof cfg now p")
    case (Inl e)
    with assms(2) n r1 show ?thesis by (auto simp: monitor_proof_def)
  next
    case (Inr v)
    show ?thesis
    proof (cases v)
      case (Reject rj)
      with assms(2) n Inr have "w' = emit (Rejected (intentHash p) rj) w1" and "st' = st"
        by (auto simp: monitor_proof_def)
      with rs(2) [OF r1 rs(5) [where e = "Rejected (intentHash p) rj" and w = w1 and st = st, simplified]] show ?thesis by auto
    next
      case Accept
      obtain t w2 where t: "determineOptimalTiming cfg w1 p = (t, w2)" by force
      note r2 = rs(2) [OF r1 rs(4) [OF t, of st]]
      show ?thesis
      proof (cases t)
        case (Inl e)
        with assms(2) n Inr Accept t r2 show ?thesis by (auto simp: monitor_proof_def)
      next
        case go: (Inr go)
        show ?thesis
        proof (cases go)
          case True
          obtain r w3 st3 where e: "executeProof cfg w2 st p = (r, w3, st3)"
            by (metis prod_cases3)
          have q: "executionQueue st3 = executionQueue st"
            using executeProof_queue [of cfg w2 st p] e by simp
          from assms(2) n Inr Accept t go True e have "w' = w3" and "st' = st3"
            by (auto simp: monitor_proof_def)
          with rs(2) [OF r2 rs(3) [OF assms(3) e]] q show ?thesis by auto
        next
          case False
          let ?st = "st\<lparr>executionQueue := executionQueue st @ [p]\<rparr>"
          from assms(2) n Inr Accept t go False
          have "w' = emit (Queued (intentHash p)) w2" and "st' = ?st"
            by (auto simp: monitor_proof_def)
          with rs(2) [OF rs(2) [OF r2 rs(5) [where e = "Queued (intentHash p)" and w = w2 and st = st, simplified]]
              rs(7) [of "emit (Queued (intentHash p)) w2" st "executionQueue st @ [p]"]]
          show ?thesis by auto
        qed
      qed
    qed
  qed
qed

lemma monitor_proofs_keeps:
  assumes "steps_keep cfg P R" and "monitor_proofs cfg ps w st = (x, w', st')" and "list_all P ps"
  shows "R (w, st) (w', st')
         \<and> set (executionQueue st') \<subseteq> set (executionQueue st) \<union> set ps"
  using assms(2,3)
proof (induction ps arbitrary: w st)
  case Nil
  then show ?case by (auto simp: steps_keepD(1) [OF assms(1)])
next
  case (Cons p ps)
  note rs = steps_keepD [OF assms(1)]
  obtain y w1 st1 where m: "monitor_proof cfg w st p = (y, w1, st1)" by (metis prod_cases3)
  from Cons.prems(2) have Pp: "P p" and Pps: "list_all P ps" by simp_all
  note g1 = monitor_proof_keeps [OF assms(1) m Pp]
  show ?case
  proof (cases y)
    case (Inl e)
    with Cons.prems(1) m g1 show ?thesis by auto
  next
    case (Inr u)
    with Cons.prems(1) m have "monitor_proofs cfg ps w1 st1 = (x, w', st')" by simp
    from Cons.IH [OF this Pps] g1 show ?thesis
      by (auto intro: rs(2))
  qed
qed

lemma monitor_cycle_keeps:
  assumes "steps_keep cfg P R" and "monitor_cycle cfg src (w, st) = (w', st')"
    and "list_all P src" and "list_all P (executionQueue st)"
  shows "R (w, st) (w', st')
         \<and> set (executionQueue st') \<subseteq> set (executionQueue st) \<union> set src"
proof -
  note rs = steps_keepD [OF assms(1)]
  let ?ps = "fetchPendingProofs st src"
  let ?w0 = "emit Scanning w"
  obtain y w1 st1 where m:
    "(if ?ps \<noteq> [] then monitor_proofs cfg ?ps (emit (Found (length ?ps)) ?w0) st
      else (Inr (), ?w0, st)) = (y, w1, st1)"
    by (metis prod_cases3)
  have sub: "set ?ps \<subseteq> set src" by (auto simp: fetchPendingProofs_def)
  from assms(3) sub have Pps: "list_all P ?ps"
    by (auto simp: list_all_iff)
  have g1: "R (w, st) (w1, st1)
            \<and> set (executionQueue st1) \<subseteq> set (executionQueue st) \<union> set ?ps"
  proof (cases "?ps = []")
    case True
    with m rs(5) [where e = Scanning and w = w and st = st, simplified] show ?thesis by auto
  next
    case False
    with m have "monitor_proofs cfg ?ps (emit (Found (length ?ps)) ?w0) st = (y, w1, st1)"
      by simp
    from monitor_proofs_keeps [OF assms(1) this Pps]
      rs(2) [OF rs(5) [where e = Scanning and w = w and st = st, simplified] rs(5) [where e = "Found (length ?ps)" and w = ?w0 and st = st, simplified]]
    show ?thesis by (auto intro: rs(2))
  qed
  show ?thesis
  proof (cases y)
    case (Inl e)
    with assms(2) m have "w' = emit (MonitorLoopError e) w1" and "st' = st1"
      by (auto simp: monitor_cycle_def Let_def)
    with g1 sub rs(5) [where e = "MonitorLoopError e" and w = w1 and st = st1, simplified] show ?thesis
      by (auto intro: rs(2))
  next
    case (Inr u)
    obtain z w2 st2 where q: "processQueue cfg w1 st1 = (z, w2, st2)" by (metis prod_cases3)
    from assms(3,4) g1 sub have "list_all P (executionQueue st1)"
      by (auto simp: list_all_iff)
    from processQueue_keeps [OF assms(1) q this] have g2: "R (w1, st1) (w2, st2)"
      and q2: "set (executionQueue st2) \<subseteq> set (executionQueue st1)" by simp_all
    from assms(2) m Inr q have "st' = st2 \<and> (w' = w2 \<or> (\<exists>e. w' = emit (MonitorLoopError e) w2))"
      by (auto simp: monitor_cycle_def Let_def split: sum.splits)
    with g1 g2 q2 sub rs(5) [where w = w2 and st = st2] show ?thesis
      by (auto intro: rs(2))
  qed
qed

lemma monitorAndExecute_keeps:
  assumes "steps_keep cfg P R" and "monitorAndExecute cfg srcs (w, st) = (w', st')"
    and "list_all (list_all P) srcs" and "list_all P (executionQueue st)"
  shows "R (w, st) (w', st')"
  using assms(2,3,4)
proof (induction srcs arbitrary: w st)
  case Nil
  then show ?case by (simp add: steps_keepD(1) [OF assms(1)])
next
  case (Cons src srcs)
  note rs = steps_keepD [OF assms(1)]
  obtain w1 st1 where c: "monitor_cycle cfg src (w, st) = (w1, st1)" by force
  from Cons.prems(2) have P1: "list_all P src" and P2: "list_all (list_all P) srcs" by simp_all
  note g1 = monitor_cycle_keeps [OF assms(1) c P1 Cons.prems(3)]
  from P1 Cons.prems(3) g1 have Pq: "list_all P (executionQueue st1)"
    by (auto simp: list_all_iff)
  from Cons.prems(1) c have "monitorAndExecute cfg srcs (w1, st1) = (w', st')" by simp
  from Cons.IH [OF this P2 Pq] g1 show ?case by (auto intro: rs(2))
qed


lemma executeCalls_append: "executeCalls (xs @ ys) = executeCalls xs @ executeCalls ys"
  by (simp add: executeCalls_def)

lemma determineOptimalTiming_console:
  assumes "determineOptimalTiming cfg w p = (t, w')"
  shows "console w' = console w @ TimingCall (intentHash p) #
           (case t of Inl e \<Rightarrow> [] | Inr go \<Rightarrow> [TimingResult (intentHash p) go])"
  using assms
  by (auto simp: determineOptimalTiming_def checkBlockTiming_def io_defs
      split: prod.splits list.splits response.splits sum.splits if_splits)

lemma executeProof_console:
  assumes "executeProof cfg w st p = (r, w', st')"
  shows "\<exists>rest. console w' = console w @ ExecuteCall (intentHash p) # rest
           \<and> set rest \<subseteq> {TxSubmitted (intentHash p)} \<union> range (TxConfirmed (intentHash p))
                        \<union> range (ExecutionFailed (intentHash p))"
  using assms
  by (auto simp: exec_defs io_defs Let_def
      split: option.splits prod.splits list.splits response.splits sum.splits)

lemma executeCalls_tail:
  assumes "set rest \<subseteq> {TxSubmitted h} \<union> range (TxConfirmed h) \<union> range (ExecutionFailed h)"
  shows "executeCalls rest = []"
  using assms by (induction rest) (auto simp: executeCalls_def)

lemma executeProof_counted:
  assumes "executeProof cfg w st p = (r, w', st')"
  shows "proofsProcessed (stats st') = proofsProcessed (stats st) + 1"
  using assms
  by (auto simp: exec_defs Let_def
      split: option.splits prod.splits sum.splits response.splits)





lemma attempts_counted_steps: "steps_keep cfg (\<lambda>p. True) attempts_counted"
  unfolding steps_keep_def
proof (intro conjI allI impI)
  fix w st p
  obtain r w' st' where e: "executeProof cfg w st p = (r, w', st')" by (metis prod_cases3)
  from executeProof_console [OF e] obtain rest
    where c: "console w' = console w @ ExecuteCall (intentHash p) # rest"
      and r: "set rest \<subseteq> {TxSubmitted (intentHash p)} \<union> range (TxConfirmed (intentHash p))
                \<union> range (ExecutionFailed (intentHash p))"
    by blast
  have "executeCalls (ExecuteCall (intentHash p) # rest) = [intentHash p]"
    using executeCalls_tail [OF r] by (simp add: executeCalls_def)
  with c executeProof_counted [OF e] e
  show "attempts_counted (w, st) (snd (executeProof cfg w st p))"
    by (simp add: attempts_counted_def)
next
  fix w st p
  obtain t w' where t: "determineOptimalTiming cfg w p = (t, w')" by force
  from determineOptimalTiming_console [OF t] t
  show "attempts_counted (w, st) (snd (determineOptimalTiming cfg w p), st)"
    by (auto simp: attempts_counted_def executeCalls_def split: sum.splits)
next
  fix x y z :: "io \<times> agent"
  assume "attempts_counted x y" and "attempts_counted y z"
  then show "attempts_counted x z"
    by (auto simp: attempts_counted_def executeCalls_append)
next
  fix w :: io and st :: agent and e
  assume "executed_of e = []"
  then show "attempts_counted (w, st) (emit e w, st)"
    by (simp add: attempts_counted_def emit_def executeCalls_def)
next
  fix w :: io and st :: agent
  show "attempts_counted (w, st) (snd (dateNow w), st)"
    by (auto simp: attempts_counted_def dateNow_def executeCalls_def split: list.splits)
qed (simp_all add: attempts_counted_def executeCalls_def)




text \<open>
  Claim C9 fails on the code. In an iteration the agent sees a valid candidate,
  defers it because gas is high, and \<^verbatim>\<open>proofsProcessed\<close> stays at zero.
\<close>

theorem deferred_candidate_not_counted:
  "console (fst deferred_once) =
     [Scanning, Found 1, ValidateCall (intentHash (mockProof 1700000000)),
      TimingCall (intentHash (mockProof 1700000000)),
      TimingResult (intentHash (mockProof 1700000000)) False,
      Queued (intentHash (mockProof 1700000000)),
      ProcessingQueue 1,
      TimingCall (intentHash (mockProof 1700000000)),
      TimingResult (intentHash (mockProof 1700000000)) False]
   \<and> proofsProcessed (stats (snd deferred_once)) = 0"
  by (simp add: deferred_once_def cycle_defs timing_defs io_defs demo_defs)

text \<open>
  Claim C9, amended. \<^verbatim>\<open>proofsProcessed\<close> counts the calls of \<^verbatim>\<open>executeProof\<close>: each
  call adds exactly one, whether it succeeds or fails, and over any number of iterations
  the counter grows by the number of calls logged, so a candidate that is rejected or
  deferred adds nothing.
\<close>

theorem proofsProcessed_counts_executeProof_calls:
  "(executeProof cfg w0 st0 p = (r, w1, st1) \<longrightarrow>
      proofsProcessed (stats st1) = proofsProcessed (stats st0) + 1)
   \<and> (monitorAndExecute cfg srcs (w, st) = (w', st') \<longrightarrow>
        (\<exists>new. console w' = console w @ new
           \<and> proofsProcessed (stats st')
               = proofsProcessed (stats st) + length (executeCalls new)))"
proof (intro conjI impI)
  assume "executeProof cfg w0 st0 p = (r, w1, st1)"
  then show "proofsProcessed (stats st1) = proofsProcessed (stats st0) + 1"
    by (rule executeProof_counted)
next
  assume run: "monitorAndExecute cfg srcs (w, st) = (w', st')"
  have "list_all (list_all (\<lambda>p. True)) srcs" and "list_all (\<lambda>p. True) (executionQueue st)"
    by (auto simp: list_all_iff)
  from monitorAndExecute_keeps [OF attempts_counted_steps run this]
  show "\<exists>new. console w' = console w @ new
           \<and> proofsProcessed (stats st')
               = proofsProcessed (stats st) + length (executeCalls new)"
    by (simp add: attempts_counted_def)
qed

theorem proofsProcessed_counts_executeProof_calls_witness:
  "proofsProcessed (stats (snd (snd first_call))) = proofsProcessed (stats new_agent) + 1
   \<and> (\<exists>new. console (fst deferred_then_refetched) = [] @ new
         \<and> proofsProcessed (stats (snd deferred_then_refetched))
             = proofsProcessed (stats new_agent) + length (executeCalls new))"
  using proofsProcessed_counts_executeProof_calls [of CONFIG
      "demo_io [calm, calm] [Returns 100, Returns 101]"
      new_agent "mockProof 1700000000" "fst first_call" "fst (snd first_call)"
      "snd (snd first_call)" "[mock_source, mock_source]"
      "demo_io [congested, congested, calm, calm, calm, calm]
               [Returns 100, Returns 101, Returns 102, Returns 103]"
      new_agent "fst deferred_then_refetched" "snd deferred_then_refetched"]
  by (simp add: first_call_def deferred_then_refetched_def demo_io_def)

section \<open>Properties of the pending queue\<close>

text \<open>
  A drain that returns: the timing advisor is called once on each queued proof, in queue
  order; \<open>ds\<close> lists its answers; \<^verbatim>\<open>executeProof\<close> is called on exactly the proofs
  answered true, and the proofs answered false are appended to the queue in their order.
\<close>

lemma observers_append:
  "timingCalls (xs @ ys) = timingCalls xs @ timingCalls ys"
  "timingVerdicts (xs @ ys) = timingVerdicts xs @ timingVerdicts ys"
  by (simp_all add: timingCalls_def timingVerdicts_def)

lemma observers_tail:
  assumes "set rest \<subseteq> {TxSubmitted h} \<union> range (TxConfirmed h) \<union> range (ExecutionFailed h)"
  shows "timingCalls rest = [] \<and> timingVerdicts rest = []"
  using assms by (induction rest) (auto simp: timingCalls_def timingVerdicts_def)

lemma processQueue_loop_trace:
  assumes "processQueue_loop cfg ps w st = (Inr (), w', st')"
  shows "\<exists>new ds. console w' = console w @ new
           \<and> length ds = length ps
           \<and> timingCalls new = map intentHash ps
           \<and> timingVerdicts new = zip (map intentHash ps) ds
           \<and> executeCalls new = map (intentHash \<circ> fst) (filter snd (zip ps ds))
           \<and> executionQueue st' = executionQueue st @ map fst (filter (Not \<circ> snd) (zip ps ds))"
  using assms
proof (induction ps arbitrary: w st)
  case Nil
  then show ?case
    by (simp add: timingCalls_def timingVerdicts_def executeCalls_def)
next
  case (Cons p ps)
  obtain t w1 where t: "determineOptimalTiming cfg w p = (t, w1)" by force
  with Cons.prems obtain go where go: "t = Inr go" by (cases t) auto
  from determineOptimalTiming_console [OF t] go
  have c1: "console w1 = console w @ [TimingCall (intentHash p), TimingResult (intentHash p) go]"
    by simp
  show ?case
  proof (cases go)
    case True
    obtain r w2 st2 where e: "executeProof cfg w1 st p = (r, w2, st2)" by (metis prod_cases3)
    from executeProof_console [OF e] obtain rest
      where c2: "console w2 = console w1 @ ExecuteCall (intentHash p) # rest"
        and r: "set rest \<subseteq> {TxSubmitted (intentHash p)} \<union> range (TxConfirmed (intentHash p))
                  \<union> range (ExecutionFailed (intentHash p))"
      by blast
    have q: "executionQueue st2 = executionQueue st"
      using executeProof_queue [of cfg w1 st p] e by simp
    from Cons.prems t go True e have "processQueue_loop cfg ps w2 st2 = (Inr (), w', st')"
      by simp
    from Cons.IH [OF this] obtain new ds
      where ih: "console w' = console w2 @ new" "length ds = length ps"
        "timingCalls new = map intentHash ps"
        "timingVerdicts new = zip (map intentHash ps) ds"
        "executeCalls new = map (intentHash \<circ> fst) (filter snd (zip ps ds))"
        "executionQueue st' = executionQueue st2 @ map fst (filter (Not \<circ> snd) (zip ps ds))"
      by blast
    let ?new = "[TimingCall (intentHash p), TimingResult (intentHash p) True,
                 ExecuteCall (intentHash p)] @ rest @ new"
    have "console w' = console w @ ?new" using ih(1) c1 c2 True by simp
    moreover have "timingCalls ?new = map intentHash (p # ps)"
      using ih(3) observers_tail [OF r] by (simp add: observers_append) (simp add: timingCalls_def)
    moreover have "timingVerdicts ?new = zip (map intentHash (p # ps)) (True # ds)"
      using ih(4) observers_tail [OF r] by (simp add: observers_append) (simp add: timingVerdicts_def)
    moreover have "executeCalls ?new
        = map (intentHash \<circ> fst) (filter snd (zip (p # ps) (True # ds)))"
      using ih(5) executeCalls_tail [OF r] by (simp add: executeCalls_append) (simp add: executeCalls_def)
    moreover have "executionQueue st'
        = executionQueue st @ map fst (filter (Not \<circ> snd) (zip (p # ps) (True # ds)))"
      using ih(6) q by simp
    moreover have "length (True # ds) = length (p # ps)" using ih(2) by simp
    ultimately show ?thesis by blast
  next
    case False
    define st1 where "st1 = st\<lparr>executionQueue := executionQueue st @ [p]\<rparr>"
    have q: "executionQueue st1 = executionQueue st @ [p]" by (simp add: st1_def)
    from Cons.prems t go False
    have "processQueue_loop cfg ps w1 st1 = (Inr (), w', st')"
      by (simp add: st1_def)
    from Cons.IH [OF this] obtain new ds
      where ih: "console w' = console w1 @ new" "length ds = length ps"
        "timingCalls new = map intentHash ps"
        "timingVerdicts new = zip (map intentHash ps) ds"
        "executeCalls new = map (intentHash \<circ> fst) (filter snd (zip ps ds))"
        "executionQueue st' = executionQueue st1 @ map fst (filter (Not \<circ> snd) (zip ps ds))"
      by blast
    let ?new = "[TimingCall (intentHash p), TimingResult (intentHash p) False] @ new"
    have "console w' = console w @ ?new" using ih(1) c1 False by simp
    moreover have "timingCalls ?new = map intentHash (p # ps)"
      using ih(3) by (simp add: observers_append) (simp add: timingCalls_def)
    moreover have "timingVerdicts ?new = zip (map intentHash (p # ps)) (False # ds)"
      using ih(4) by (simp add: observers_append) (simp add: timingVerdicts_def)
    moreover have "executeCalls ?new
        = map (intentHash \<circ> fst) (filter snd (zip (p # ps) (False # ds)))"
      using ih(5) by (simp add: executeCalls_append) (simp add: executeCalls_def)
    moreover have "executionQueue st'
        = executionQueue st @ map fst (filter (Not \<circ> snd) (zip (p # ps) (False # ds)))"
      using ih(6) q by simp
    moreover have "length (False # ds) = length (p # ps)" using ih(2) by simp
    ultimately show ?thesis by blast
  qed
qed

lemma processQueue_trace:
  assumes "processQueue cfg w st = (Inr (), w', st')" and "executionQueue st \<noteq> []"
  shows "\<exists>new ds. console w' = console w @ ProcessingQueue (length (executionQueue st)) # new
           \<and> length ds = length (executionQueue st)
           \<and> timingCalls new = map intentHash (executionQueue st)
           \<and> timingVerdicts new = zip (map intentHash (executionQueue st)) ds
           \<and> executeCalls new
               = map (intentHash \<circ> fst) (filter snd (zip (executionQueue st) ds))
           \<and> executionQueue st' = map fst (filter (Not \<circ> snd) (zip (executionQueue st) ds))"
proof -
  from assms have "processQueue_loop cfg (executionQueue st)
      (emit (ProcessingQueue (length (executionQueue st))) w) (st\<lparr>executionQueue := []\<rparr>)
        = (Inr (), w', st')"
    by (simp add: processQueue_def Let_def)
  from processQueue_loop_trace [OF this] show ?thesis
    by (simp add: emit_def)
qed

text \<open>
  Claim C6: in every cycle each queued proof is evaluated once by the timing advisor,
  executed if it passes and queued again if it does not. The code does so as long as no
  read throws (the two lemmas above). \<^verbatim>\<open>processQueue\<close> empties \<^verbatim>\<open>executionQueue\<close>
  before its loop and puts a proof back only when the timing advisor has answered false
  for it, so when a provider read throws inside the loop, the proof being evaluated and
  all proofs after it are lost: of three queued proofs the first is deferred and kept,
  the second and the third are gone, and the third was never evaluated.
\<close>

theorem processQueue_throw_loses_queue:
  "fst drain_interrupted = Inl (ProviderError ''timeout'')
   \<and> executionQueue three_queued
       = [other_proof CHR ''a'', other_proof CHR ''b'', other_proof CHR ''c'']
   \<and> executionQueue (snd (snd drain_interrupted)) = [other_proof CHR ''a'']
   \<and> console (fst (snd drain_interrupted))
       = [ProcessingQueue 3, TimingCall ''a'', TimingResult ''a'' False, TimingCall ''b'']"
  by (simp add: drain_interrupted_def three_queued_def other_proof_def processQueue_def
      timing_defs io_defs demo_defs Let_def)

end
